theory Spec2Isabelle
  imports Main "HOL-Library.Word"
begin

section \<open>ECMAScript strings\<close>

text \<open>
  An ECMAScript string is a sequence of 16-bit code units. The regular expression, \<open>trim\<close>,
  \<open>JSON.parse\<close> and \<open>JSON.stringify\<close> all work on code units, so the model does too.
  \<open>js\<close> turns an ASCII literal into such a string.
\<close>

type_synonym code_unit = "16 word"
type_synonym js_string = "code_unit list"

definition js :: "string \<Rightarrow> js_string" where
  "js s = map (\<lambda>c. of_nat (of_char c)) s"

definition starts_with :: "js_string \<Rightarrow> js_string \<Rightarrow> bool" where
  "starts_with p s = (take (length p) s = p)"

definition newline :: code_unit where
  "newline = 0x0A"

definition backtick :: code_unit where
  "backtick = 0x60"

section \<open>Cleaning the raw text\<close>

text \<open>
  \<^verbatim>\<open>rawText = rawText.replace(/```json\n?|\n?```/g, '').trim();\<close>

  \<open>fence_match s\<close> is the length of the match of the regular expression at the head of
  \<open>s\<close>, if there is one: the first alternative is tried first, and \<open>\n?\<close> is greedy.
  \<open>strip_fences\<close> is the global replacement by the empty string: scan from the left, drop
  a match where there is one and resume behind it, keep the code unit otherwise.
\<close>

definition fence :: js_string where
  "fence = [backtick, backtick, backtick]"

definition fence_json :: js_string where
  "fence_json = fence @ js ''json''"

definition fence_match :: "js_string \<Rightarrow> nat option" where
  "fence_match s =
     (if starts_with fence_json s then
        Some (if starts_with [newline] (drop 7 s) then 8 else 7)
      else if starts_with (newline # fence) s then Some 4
      else if starts_with fence s then Some 3
      else None)"

lemma fence_match_pos: "fence_match s = Some n \<Longrightarrow> 0 < n"
  by (auto simp: fence_match_def split: if_splits)

function strip_fences :: "js_string \<Rightarrow> js_string" where
  "strip_fences [] = []"
| "strip_fences (c # cs) =
     (case fence_match (c # cs) of
        Some n \<Rightarrow> strip_fences (drop n (c # cs))
      | None \<Rightarrow> c # strip_fences cs)"
  by pat_completeness auto
termination
  by (relation "measure length") (auto dest: fence_match_pos)

text \<open>
  \<open>String.prototype.trim\<close> removes white space and line terminators from both ends:
  TAB, LF, VT, FF, CR, SP, NBSP, the Unicode space separators and the byte order mark.
\<close>

definition is_js_whitespace :: "code_unit \<Rightarrow> bool" where
  "is_js_whitespace c =
     (c \<in> set [0x09, 0x0A, 0x0B, 0x0C, 0x0D, 0x20, 0xA0, 0x1680, 0x2028, 0x2029,
                0x202F, 0x205F, 0x3000, 0xFEFF]
      \<or> (0x2000 \<le> c \<and> c \<le> 0x200A))"

definition trim :: "js_string \<Rightarrow> js_string" where
  "trim s = rev (dropWhile is_js_whitespace (rev (dropWhile is_js_whitespace s)))"

definition clean :: "js_string \<Rightarrow> js_string" where
  "clean rawText = trim (strip_fences rawText)"

section \<open>JSON values\<close>

text \<open>
  The values \<open>JSON.parse\<close> returns. A number is kept as the literal it was read from: its
  value is an IEEE double, outside this model, and the functions that render a number take
  the rendering (literal to the text of \<open>Number::toString\<close>) as the parameter \<open>nt\<close>.
  An object is the list of its own properties in enumeration order.
\<close>

datatype json =
    JNull
  | JBool bool
  | JNum js_string
  | JStr js_string
  | JArr "json list"
  | JObj "(js_string \<times> json) list"

type_synonym js_object = "(js_string \<times> json) list"

subsection \<open>Own properties\<close>

text \<open>
  An object is the list of its own properties, whatever the type of the values. Creating or
  assigning a data property: an existing key keeps its place and takes the new value; a new key that is an array index (a canonical decimal numeral below \<open>2^32 - 1\<close>)
  goes among the array indices, in ascending order, which come before all other keys; any
  other new key goes to the end.
\<close>

definition is_digit :: "code_unit \<Rightarrow> bool" where
  "is_digit c = (0x30 \<le> c \<and> c \<le> 0x39)"

definition digits_value :: "js_string \<Rightarrow> int" where
  "digits_value ds = foldl (\<lambda>n d. 10 * n + (uint d - 48)) 0 ds"

definition array_index :: "js_string \<Rightarrow> int option" where
  "array_index k =
     (if k \<noteq> [] \<and> list_all is_digit k \<and> (hd k \<noteq> 0x30 \<or> length k = 1)
         \<and> length k \<le> 10 \<and> digits_value k \<le> 4294967294
      then Some (digits_value k) else None)"

fun replace_value :: "js_string \<Rightarrow> 'v \<Rightarrow> (js_string \<times> 'v) list \<Rightarrow> (js_string \<times> 'v) list" where
  "replace_value k v [] = []"
| "replace_value k v ((k', v') # es) =
     (if k' = k then (k, v) # es else (k', v') # replace_value k v es)"

fun insert_index ::
  "int \<Rightarrow> js_string \<Rightarrow> 'v \<Rightarrow> (js_string \<times> 'v) list \<Rightarrow> (js_string \<times> 'v) list" where
  "insert_index n k v [] = [(k, v)]"
| "insert_index n k v ((k', v') # es) =
     (case array_index k' of
        Some m \<Rightarrow> if m < n then (k', v') # insert_index n k v es
                  else (k, v) # (k', v') # es
      | None \<Rightarrow> (k, v) # (k', v') # es)"

definition obj_put :: "js_string \<Rightarrow> 'v \<Rightarrow> (js_string \<times> 'v) list \<Rightarrow> (js_string \<times> 'v) list" where
  "obj_put k v es =
     (if k \<in> fst ` set es then replace_value k v es
      else case array_index k of
             Some n \<Rightarrow> insert_index n k v es
           | None \<Rightarrow> es @ [(k, v)])"

section \<open>JSON.parse\<close>

subsection \<open>Tokens\<close>

datatype token =
    TLBrace | TRBrace | TLBracket | TRBracket | TColon | TComma
  | TString js_string | TNumber js_string | TTrue | TFalse | TNull

definition is_json_ws :: "code_unit \<Rightarrow> bool" where
  "is_json_ws c = (c = 0x20 \<or> c = 0x09 \<or> c = 0x0A \<or> c = 0x0D)"

definition hex_value :: "code_unit \<Rightarrow> code_unit option" where
  "hex_value c =
     (if 0x30 \<le> c \<and> c \<le> 0x39 then Some (c - 0x30)
      else if 0x41 \<le> c \<and> c \<le> 0x46 then Some (c - 0x37)
      else if 0x61 \<le> c \<and> c \<le> 0x66 then Some (c - 0x57)
      else None)"

text \<open>The four hexadecimal digits of a \<open>\uXXXX\<close> escape.\<close>

definition unhex4 :: "js_string \<Rightarrow> code_unit option" where
  "unhex4 ds =
     (case map hex_value ds of
        [Some a, Some b, Some c, Some d] \<Rightarrow> Some (((a * 16 + b) * 16 + c) * 16 + d)
      | _ \<Rightarrow> None)"

definition escape_char :: "code_unit \<Rightarrow> code_unit option" where
  "escape_char e =
     (if e = 0x22 then Some 0x22
      else if e = 0x5C then Some 0x5C
      else if e = 0x2F then Some 0x2F
      else if e = 0x62 then Some 0x08
      else if e = 0x66 then Some 0x0C
      else if e = 0x6E then Some 0x0A
      else if e = 0x72 then Some 0x0D
      else if e = 0x74 then Some 0x09
      else None)"

definition prepend :: "code_unit \<Rightarrow> (js_string \<times> js_string) option \<Rightarrow> (js_string \<times> js_string) option" where
  "prepend c r = map_option (\<lambda>(s, rest). (c # s, rest)) r"

text \<open>
  The characters of a string literal after its opening quote, up to the closing quote:
  the string denoted and the text behind the literal.
\<close>

function lex_string :: "js_string \<Rightarrow> (js_string \<times> js_string) option" where
  "lex_string [] = None"
| "lex_string (c # cs) =
     (if c = 0x22 then Some ([], cs)
      else if c = 0x5C then
        (case cs of
           [] \<Rightarrow> None
         | e # r \<Rightarrow>
             if e = 0x75 then
               (case unhex4 (take 4 r) of
                  None \<Rightarrow> None
                | Some x \<Rightarrow> prepend x (lex_string (drop 4 r)))
             else
               (case escape_char e of
                  None \<Rightarrow> None
                | Some x \<Rightarrow> prepend x (lex_string r)))
      else if c < 0x20 then None
      else prepend c (lex_string cs))"
  by pat_completeness auto
termination
  by (relation "measure length") auto

text \<open>
  A number literal: \<open>-? (0 | [1-9][0-9]*) (. [0-9]+)? ([eE] [+-]? [0-9]+)?\<close>, the longest
  such prefix.
\<close>

definition lex_int :: "js_string \<Rightarrow> (js_string \<times> js_string) option" where
  "lex_int s =
     (case s of
        [] \<Rightarrow> None
      | d # r \<Rightarrow>
          if d = 0x30 then Some ([d], r)
          else if is_digit d then Some (takeWhile is_digit s, dropWhile is_digit s)
          else None)"

definition lex_frac :: "js_string \<Rightarrow> (js_string \<times> js_string) option" where
  "lex_frac s =
     (case s of
        [] \<Rightarrow> Some ([], s)
      | p # r \<Rightarrow>
          if p = 0x2E then
            (if takeWhile is_digit r = [] then None
             else Some (p # takeWhile is_digit r, dropWhile is_digit r))
          else Some ([], s))"

definition lex_exp :: "js_string \<Rightarrow> (js_string \<times> js_string) option" where
  "lex_exp s =
     (case s of
        [] \<Rightarrow> Some ([], s)
      | e # r \<Rightarrow>
          if e = 0x65 \<or> e = 0x45 then
            (let sign = (case r of [] \<Rightarrow> [] | g # _ \<Rightarrow> if g = 0x2B \<or> g = 0x2D then [g] else []);
                 r' = drop (length sign) r
             in if takeWhile is_digit r' = [] then None
                else Some (e # sign @ takeWhile is_digit r', dropWhile is_digit r'))
          else Some ([], s))"

definition lex_number :: "js_string \<Rightarrow> (js_string \<times> js_string) option" where
  "lex_number s =
     (let sign = (if starts_with [0x2D] s then [0x2D] else []) in
      case lex_int (drop (length sign) s) of
        None \<Rightarrow> None
      | Some (i, s1) \<Rightarrow>
          (case lex_frac s1 of
             None \<Rightarrow> None
           | Some (f, s2) \<Rightarrow>
               (case lex_exp s2 of
                  None \<Rightarrow> None
                | Some (x, s3) \<Rightarrow> Some (sign @ i @ f @ x, s3))))"

lemma lex_string_shorter: "lex_string s = Some (x, rest) \<Longrightarrow> length rest < length s"
proof (induction s arbitrary: x rule: lex_string.induct)
  case 1
  then show ?case by simp
next
  case (2 c cs)
  show ?case
  proof (cases "c = 0x22")
    case True
    with 2 show ?thesis by simp
  next
    case False
    show ?thesis
    proof (cases "c = 0x5C")
      case esc: True
      show ?thesis
      proof (cases cs)
        case Nil
        with 2 esc False show ?thesis by simp
      next
        case (Cons e r)
        show ?thesis
        proof (cases "e = 0x75")
          case True
          with 2(4) esc False Cons obtain u y where "unhex4 (take 4 r) = Some u"
            and "lex_string (drop 4 r) = Some (y, rest)"
            by (auto simp: prepend_def split: option.splits)
          with 2(1) [OF False esc Cons True] have "length rest < length (drop 4 r)"
            by blast
          with Cons show ?thesis by simp
        next
          case nu: False
          with 2(4) esc False Cons obtain u y where "escape_char e = Some u"
            and "lex_string r = Some (y, rest)"
            by (auto simp: prepend_def split: option.splits)
          with 2(2) [OF False esc Cons nu] have "length rest < length r"
            by blast
          with Cons show ?thesis by simp
        qed
      qed
    next
      case plain: False
      with 2(4) False obtain y where "\<not> c < 0x20" and "lex_string cs = Some (y, rest)"
        by (auto simp: prepend_def split: if_splits)
      with 2(3) [OF False plain] have "length rest < length cs"
        by blast
      then show ?thesis by simp
    qed
  qed
qed

lemma lex_int_shorter: "lex_int s = Some (x, rest) \<Longrightarrow> length rest < length s"
  by (cases s) (auto simp: lex_int_def less_Suc_eq_le length_dropWhile_le split: if_splits)

lemma lex_frac_shorter: "lex_frac s = Some (x, rest) \<Longrightarrow> length rest \<le> length s"
  by (cases s)
    (auto simp: lex_frac_def le_SucI length_dropWhile_le split: if_splits)

lemma lex_exp_shorter: "lex_exp s = Some (x, rest) \<Longrightarrow> length rest \<le> length s"
proof (cases s)
  case Nil
  assume "lex_exp s = Some (x, rest)"
  with Nil show ?thesis by (simp add: lex_exp_def)
next
  case (Cons e r)
  assume a: "lex_exp s = Some (x, rest)"
  show ?thesis
  proof (cases "e = 0x65 \<or> e = 0x45")
    case True
    with a Cons obtain n where "rest = dropWhile is_digit (drop n r)"
      by (auto simp: lex_exp_def Let_def split: if_splits)
    moreover have "length (dropWhile is_digit (drop n r)) \<le> length (drop n r)"
      by (rule length_dropWhile_le)
    ultimately show ?thesis using Cons by simp
  next
    case False
    with a Cons show ?thesis by (auto simp: lex_exp_def)
  qed
qed

lemma lex_number_shorter: "lex_number s = Some (x, rest) \<Longrightarrow> length rest < length s"
proof -
  assume a: "lex_number s = Some (x, rest)"
  define n where "n = length (if starts_with [0x2D] s then [0x2D::code_unit] else [])"
  from a obtain i s1 f s2 y where i: "lex_int (drop n s) = Some (i, s1)"
    and f: "lex_frac s1 = Some (f, s2)" and e: "lex_exp s2 = Some (y, rest)"
    unfolding lex_number_def Let_def n_def by (auto split: option.splits)
  from lex_int_shorter [OF i] have "length s1 < length s" by simp
  with lex_frac_shorter [OF f] lex_exp_shorter [OF e] show ?thesis by simp
qed

text \<open>The token sequence of a text; \<open>None\<close> where no token starts.\<close>

definition cons_token :: "token \<Rightarrow> token list option \<Rightarrow> token list option" where
  "cons_token t r = map_option (Cons t) r"

function lex :: "js_string \<Rightarrow> token list option" where
  "lex [] = Some []"
| "lex (c # cs) =
     (if is_json_ws c then lex cs
      else if c = 0x7B then cons_token TLBrace (lex cs)
      else if c = 0x7D then cons_token TRBrace (lex cs)
      else if c = 0x5B then cons_token TLBracket (lex cs)
      else if c = 0x5D then cons_token TRBracket (lex cs)
      else if c = 0x3A then cons_token TColon (lex cs)
      else if c = 0x2C then cons_token TComma (lex cs)
      else if c = 0x22 then
        (case lex_string cs of
           None \<Rightarrow> None
         | Some (s, rest) \<Rightarrow> cons_token (TString s) (lex rest))
      else if c = 0x2D \<or> is_digit c then
        (case lex_number (c # cs) of
           None \<Rightarrow> None
         | Some (lit, rest) \<Rightarrow> cons_token (TNumber lit) (lex rest))
      else if starts_with (js ''true'') (c # cs) then cons_token TTrue (lex (drop 3 cs))
      else if starts_with (js ''false'') (c # cs) then cons_token TFalse (lex (drop 4 cs))
      else if starts_with (js ''null'') (c # cs) then cons_token TNull (lex (drop 3 cs))
      else None)"
  by pat_completeness auto
termination
  by (relation "measure length")
    (auto dest: lex_string_shorter lex_number_shorter simp: less_Suc_eq_le)

subsection \<open>Grammar\<close>

text \<open>
  The grammar of JSON values over the tokens, as a pushdown automaton: the stack holds the
  arrays and objects that are open, \<open>expect\<close> says what may come next. A member whose key
  is already there replaces the value (the last one wins).
\<close>

datatype frame =
    FArray "json list"
  | FObject js_object
  | FMember js_object js_string

datatype expect =
    Value
  | ValueOrClose
  | KeyOrClose
  | Key
  | Colon
  | CommaOrClose
  | End json

fun deliver :: "frame list \<Rightarrow> json \<Rightarrow> (frame list \<times> expect) option" where
  "deliver [] v = Some ([], End v)"
| "deliver (FArray vs # st) v = Some (FArray (vs @ [v]) # st, CommaOrClose)"
| "deliver (FMember es k # st) v = Some (FObject (obj_put k v es) # st, CommaOrClose)"
| "deliver (FObject es # st) v = None"

fun start_value :: "frame list \<Rightarrow> token \<Rightarrow> (frame list \<times> expect) option" where
  "start_value st TLBracket = Some (FArray [] # st, ValueOrClose)"
| "start_value st TLBrace = Some (FObject [] # st, KeyOrClose)"
| "start_value st (TString s) = deliver st (JStr s)"
| "start_value st (TNumber lit) = deliver st (JNum lit)"
| "start_value st TTrue = deliver st (JBool True)"
| "start_value st TFalse = deliver st (JBool False)"
| "start_value st TNull = deliver st JNull"
| "start_value st _ = None"

fun step :: "frame list \<Rightarrow> expect \<Rightarrow> token \<Rightarrow> (frame list \<times> expect) option" where
  "step st Value t = start_value st t"
| "step (FArray vs # st) ValueOrClose TRBracket = deliver st (JArr vs)"
| "step st ValueOrClose t = start_value st t"
| "step (FObject es # st) KeyOrClose TRBrace = deliver st (JObj es)"
| "step (FObject es # st) KeyOrClose (TString k) = Some (FMember es k # st, Colon)"
| "step (FObject es # st) Key (TString k) = Some (FMember es k # st, Colon)"
| "step st Colon TColon = Some (st, Value)"
| "step (FArray vs # st) CommaOrClose TComma = Some (FArray vs # st, Value)"
| "step (FArray vs # st) CommaOrClose TRBracket = deliver st (JArr vs)"
| "step (FObject es # st) CommaOrClose TComma = Some (FObject es # st, Key)"
| "step (FObject es # st) CommaOrClose TRBrace = deliver st (JObj es)"
| "step st e t = None"

fun run :: "frame list \<Rightarrow> expect \<Rightarrow> token list \<Rightarrow> json option" where
  "run st (End v) [] = Some v"
| "run st e [] = None"
| "run st e (t # ts) =
     (case step st e t of
        None \<Rightarrow> None
      | Some (st', e') \<Rightarrow> run st' e' ts)"

text \<open>\<open>JSON.parse(text)\<close>: the value, or \<open>None\<close> where it throws a SyntaxError.\<close>

definition JSON_parse :: "js_string \<Rightarrow> json option" where
  "JSON_parse text = (case lex text of None \<Rightarrow> None | Some ts \<Rightarrow> run [] Value ts)"

section \<open>JSON.stringify and String\<close>

definition hex_digit :: "code_unit \<Rightarrow> code_unit" where
  "hex_digit d = (if d < 10 then 0x30 + d else 0x57 + d)"

definition unicode_escape :: "code_unit \<Rightarrow> js_string" where
  "unicode_escape c =
     [0x5C, 0x75, hex_digit (c div 4096), hex_digit (c div 256 mod 16),
      hex_digit (c div 16 mod 16), hex_digit (c mod 16)]"

definition is_surrogate :: "code_unit \<Rightarrow> bool" where
  "is_surrogate c = (0xD800 \<le> c \<and> c \<le> 0xDFFF)"

definition is_high_surrogate :: "code_unit \<Rightarrow> bool" where
  "is_high_surrogate c = (0xD800 \<le> c \<and> c \<le> 0xDBFF)"

definition is_low_surrogate :: "code_unit \<Rightarrow> bool" where
  "is_low_surrogate c = (0xDC00 \<le> c \<and> c \<le> 0xDFFF)"

text \<open>
  One code unit of a quoted string: the short escapes, \<open>\u00xx\<close> for the other control
  characters and for a surrogate that stands alone, the code unit itself otherwise.
\<close>

definition escape_unit :: "code_unit \<Rightarrow> js_string" where
  "escape_unit c =
     (if c = 0x08 then [0x5C, 0x62]
      else if c = 0x09 then [0x5C, 0x74]
      else if c = 0x0A then [0x5C, 0x6E]
      else if c = 0x0C then [0x5C, 0x66]
      else if c = 0x0D then [0x5C, 0x72]
      else if c = 0x22 then [0x5C, 0x22]
      else if c = 0x5C then [0x5C, 0x5C]
      else if c < 0x20 \<or> is_surrogate c then unicode_escape c
      else [c])"

fun quote_units :: "js_string \<Rightarrow> js_string" where
  "quote_units [] = []"
| "quote_units [c] = escape_unit c"
| "quote_units (c # d # r) =
     (if is_high_surrogate c \<and> is_low_surrogate d then c # d # quote_units r
      else escape_unit c @ quote_units (d # r))"

definition JSON_quote :: "js_string \<Rightarrow> js_string" where
  "JSON_quote s = 0x22 # quote_units s @ [0x22]"

fun join :: "js_string \<Rightarrow> js_string list \<Rightarrow> js_string" where
  "join sep [] = []"
| "join sep [x] = x"
| "join sep (x # y # r) = x @ sep @ join sep (y # r)"

text \<open>
  \<open>JSON.stringify(value)\<close> without indentation, on a value that \<open>JSON.parse\<close> returned.
  A number that is not finite is written \<open>null\<close>.
\<close>

fun JSON_stringify :: "(js_string \<Rightarrow> js_string) \<Rightarrow> json \<Rightarrow> js_string" where
  "JSON_stringify nt JNull = js ''null''"
| "JSON_stringify nt (JBool b) = (if b then js ''true'' else js ''false'')"
| "JSON_stringify nt (JNum lit) =
     (if nt lit = js ''Infinity'' \<or> nt lit = js ''-Infinity'' then js ''null'' else nt lit)"
| "JSON_stringify nt (JStr s) = JSON_quote s"
| "JSON_stringify nt (JArr vs) = 0x5B # join [0x2C] (map (JSON_stringify nt) vs) @ [0x5D]"
| "JSON_stringify nt (JObj es) =
     0x7B # join [0x2C] (map (\<lambda>(k, v). JSON_quote k @ 0x3A # JSON_stringify nt v) es) @ [0x7D]"

text \<open>
  \<open>String(value)\<close>. An array is joined with commas, \<open>null\<close> elements left empty; an object
  is \<open>[object Object]\<close>.
\<close>

fun String_js :: "(js_string \<Rightarrow> js_string) \<Rightarrow> json \<Rightarrow> js_string" where
  "String_js nt JNull = js ''null''"
| "String_js nt (JBool b) = (if b then js ''true'' else js ''false'')"
| "String_js nt (JNum lit) = nt lit"
| "String_js nt (JStr s) = s"
| "String_js nt (JArr vs) =
     join [0x2C] (map (\<lambda>v. if v = JNull then [] else String_js nt v) vs)"
| "String_js nt (JObj es) = js ''[object Object]''"

section \<open>The normalizer\<close>

datatype js_type = T_object | T_string | T_number | T_boolean

fun typeof :: "json \<Rightarrow> js_type" where
  "typeof JNull = T_object"
| "typeof (JBool b) = T_boolean"
| "typeof (JNum lit) = T_number"
| "typeof (JStr s) = T_string"
| "typeof (JArr vs) = T_object"
| "typeof (JObj es) = T_object"

fun Array_isArray :: "json \<Rightarrow> bool" where
  "Array_isArray (JArr vs) = True"
| "Array_isArray v = False"

fun Object_entries :: "json \<Rightarrow> js_object" where
  "Object_entries (JObj es) = es"
| "Object_entries v = []"

text \<open>
  The two errors the \<open>try\<close> block raises: the SyntaxError of \<open>JSON.parse\<close>, and
  \<open>new Error('Response is not a valid flat JSON object')\<close>. Both are caught by the same
  \<open>catch\<close>: the failure the specification calls MalformedOutput.
\<close>

datatype malformed_output = Syntax_error | Not_flat_object

text \<open>
  \<^verbatim>\<open>if (typeof value === 'object' && value !== null) {
    return { ...acc, [key]: JSON.stringify(value) };
  }
  return { ...acc, [key]: String(value) };\<close>
\<close>

definition coerce_value :: "(js_string \<Rightarrow> js_string) \<Rightarrow> json \<Rightarrow> json" where
  "coerce_value nt v =
     (if typeof v = T_object \<and> v \<noteq> JNull then JStr (JSON_stringify nt v)
      else JStr (String_js nt v))"

text \<open>
  The body of the \<open>try\<close> block on the cleaned text:
  \<^verbatim>\<open>jsonResponse = JSON.parse(rawText);
  if (typeof jsonResponse !== 'object' || Array.isArray(jsonResponse) || jsonResponse === null) {
    throw new Error('Response is not a valid flat JSON object');
  }
  jsonResponse = Object.entries(jsonResponse).reduce((acc, [key, value]) => { ... }, {});\<close>
\<close>

definition parse_flat_object ::
  "(js_string \<Rightarrow> js_string) \<Rightarrow> js_string \<Rightarrow> malformed_output + js_object" where
  "parse_flat_object nt text =
     (case JSON_parse text of
        None \<Rightarrow> Inl Syntax_error
      | Some jsonResponse \<Rightarrow>
          if typeof jsonResponse \<noteq> T_object \<or> Array_isArray jsonResponse \<or> jsonResponse = JNull
          then Inl Not_flat_object
          else Inr (foldl (\<lambda>acc (key, val). obj_put key (coerce_value nt val) acc) []
                      (Object_entries jsonResponse)))"

text \<open>
  \<^verbatim>\<open>allowedKeys.forEach(key => {
    finalResponse[key] =
      jsonResponse[key] !== undefined ? String(jsonResponse[key]) : null;
  });\<close>
  Objects are modelled by their own properties: a read of a name that \<open>Object.prototype\<close>
  supplies (\<open>constructor\<close>, \<open>toString\<close>, \<open>__proto__\<close>, ...) is outside the
  model. \<open>allowedKeys\<close> holds no such name.
\<close>

definition select_fields ::
  "(js_string \<Rightarrow> js_string) \<Rightarrow> js_string list \<Rightarrow> js_object \<Rightarrow> js_object" where
  "select_fields nt schema jsonResponse =
     foldl (\<lambda>finalResponse key.
              obj_put key
                (case map_of jsonResponse key of
                   Some v \<Rightarrow> JStr (String_js nt v)
                 | None \<Rightarrow> JNull)
                finalResponse)
       [] schema"

text \<open>
  \<open>normalize(rawText, schema)\<close>: the pipeline of the \<open>/api/gemini\<close> handler that has the
  list of allowed keys, with that list as the parameter \<open>schema\<close>.
\<close>

definition normalize ::
  "(js_string \<Rightarrow> js_string) \<Rightarrow> js_string \<Rightarrow> js_string list \<Rightarrow> malformed_output + js_object" where
  "normalize nt rawText schema =
     (case parse_flat_object nt (clean rawText) of
        Inl e \<Rightarrow> Inl e
      | Inr jsonResponse \<Rightarrow> Inr (select_fields nt schema jsonResponse))"

definition allowedKeys :: "js_string list" where
  "allowedKeys = map js
     [''Name'', ''Religion'', ''Passportnumber'', ''ExperienceYears'', ''maritalstatus'',
      ''Experience'', ''dateofbirth'', ''Nationality'', ''job'', ''Education'',
      ''EnglishLanguageLevel'', ''ArabicLanguageLeveL'', ''SewingLevel'', ''weight'',
      ''height'', ''childrencount'', ''CleaningLevel'', ''CookingLevel'', ''WashingLevel'',
      ''IroningLevel'', ''ChildcareLevel'', ''ElderlycareLevel'',
      ''phone'', ''age'', ''officeName'', ''experienceType'',
      ''PassportStart'', ''PassportEnd'', ''Salary'', ''BabySitterLevel'']"

definition Object_prototype_names :: "js_string list" where
  "Object_prototype_names = map js
     [''constructor'', ''__defineGetter__'', ''__defineSetter__'', ''hasOwnProperty'',
      ''__lookupGetter__'', ''__lookupSetter__'', ''isPrototypeOf'', ''propertyIsEnumerable'',
      ''toString'', ''valueOf'', ''__proto__'', ''toLocaleString'']"

section \<open>The handlers\<close>

text \<open>
  The response of a handler from the point where the upstream text has arrived: the status
  and the JSON body. A property whose value is \<open>undefined\<close> is not serialized, hence the
  options. \<open>details\<close> is the message of the error caught.
\<close>

datatype http_body =
    Body_jsonResponse js_object
  | Body_error js_string "malformed_output option" "js_string option"

record response =
  status :: nat
  body :: http_body

definition development :: "js_string option \<Rightarrow> bool" where
  "development node_env = (node_env = Some (js ''development''))"

definition parse_failure_text :: js_string where
  "parse_failure_text =
     [0x0641, 0x0634, 0x0644, 0x0020, 0x0641, 0x064A, 0x0020, 0x062A, 0x062D, 0x0644, 0x064A,
      0x0644, 0x0020, 0x0627, 0x0633, 0x062A, 0x062C, 0x0627, 0x0628, 0x0629, 0x0020, 0x0047,
      0x0065, 0x006D, 0x0069, 0x006E, 0x0069, 0x0020, 0x0643, 0x0640, 0x0020, 0x004A, 0x0053,
      0x004F, 0x004E, 0x0020, 0x0635, 0x0627, 0x0644, 0x062D, 0x002E]"

text \<open>
  \<open>/api/gemini\<close> with the list of allowed keys (the second server of the unnamed part).
\<close>

definition api_gemini_allowed ::
  "(js_string \<Rightarrow> js_string) \<Rightarrow> js_string option \<Rightarrow> js_string \<Rightarrow> response" where
  "api_gemini_allowed nt node_env rawText0 =
     (let rawText = clean rawText0 in
      case parse_flat_object nt rawText of
        Inl parseError \<Rightarrow>
          \<lparr>status = 500,
           body = Body_error parse_failure_text
                    (if development node_env then Some parseError else None)
                    (if development node_env then Some rawText else None)\<rparr>
      | Inr jsonResponse \<Rightarrow>
          \<lparr>status = 200, body = Body_jsonResponse (select_fields nt allowedKeys jsonResponse)\<rparr>)"

text \<open>\<open>/api/gemini\<close> of \<open>server.js\<close> (and of the third server): no list of keys.\<close>

definition api_gemini ::
  "(js_string \<Rightarrow> js_string) \<Rightarrow> js_string option \<Rightarrow> js_string \<Rightarrow> response" where
  "api_gemini nt node_env rawText0 =
     (let rawText = clean rawText0 in
      case parse_flat_object nt rawText of
        Inl parseError \<Rightarrow>
          \<lparr>status = 500,
           body = Body_error parse_failure_text
                    (if development node_env then Some parseError else None)
                    (if development node_env then Some rawText else None)\<rparr>
      | Inr jsonResponse \<Rightarrow> \<lparr>status = 200, body = Body_jsonResponse jsonResponse\<rparr>)"

text \<open>\<open>/prompt\<close> of \<open>server.js\<close>: the raw text is parsed as it is.\<close>

definition prompt_server ::
  "(js_string \<Rightarrow> js_string) \<Rightarrow> js_string option \<Rightarrow> js_string \<Rightarrow> response" where
  "prompt_server nt node_env rawText =
     (case parse_flat_object nt rawText of
        Inl parseError \<Rightarrow>
          \<lparr>status = 500,
           body = Body_error parse_failure_text
                    (if development node_env then Some parseError else None) None\<rparr>
      | Inr jsonResponse \<Rightarrow> \<lparr>status = 200, body = Body_jsonResponse jsonResponse\<rparr>)"

text \<open>\<open>/prompt\<close> of the second and third servers: the text is cleaned first.\<close>

definition prompt_cleaned ::
  "(js_string \<Rightarrow> js_string) \<Rightarrow> js_string option \<Rightarrow> js_string \<Rightarrow> response" where
  "prompt_cleaned nt node_env rawText =
     (let cleanedText = clean rawText in
      case parse_flat_object nt cleanedText of
        Inl parseError \<Rightarrow>
          \<lparr>status = 500,
           body = Body_error parse_failure_text
                    (if development node_env then Some parseError else None) None\<rparr>
      | Inr jsonResponse \<Rightarrow> \<lparr>status = 200, body = Body_jsonResponse jsonResponse\<rparr>)"

section \<open>The Document AI server\<close>

text \<open>
  \<open>/process-document\<close> of the Document AI server collects the entities of the document by
  type:
  \<^verbatim>\<open>for (const entity of document.entities) {
    const key = entity.type;
    const value = entity.mentionText || '';
    if (extractedData.entities[key]) {
      // Handle duplicate types by making array (optional enhancement)
      if (!Array.isArray(extractedData.entities[key])) {
        extractedData.entities[key] = [extractedData.entities[key]];
      }
      extractedData.entities[key].push(value);
    } else {
      extractedData.entities[key] = value;
    }
  }\<close>
  A value of the \<open>entities\<close> object is a string or an array of strings. The model is
  of documents whose entity types are not names that an object inherits from
  \<open>Object.prototype\<close> (\<open>own_types\<close>): for such a name the read
  \<open>extractedData.entities[key]\<close> finds the inherited member, and the model, which reads
  own properties only, does not say what the code does.
\<close>

record entity =
  entity_type :: js_string
  mentionText :: "js_string option"

datatype entity_value = Text js_string | Texts "js_string list"

fun truthy :: "entity_value \<Rightarrow> bool" where
  "truthy (Text s) = (s \<noteq> [])"
| "truthy (Texts xs) = True"

fun as_array :: "entity_value \<Rightarrow> js_string list" where
  "as_array (Text s) = [s]"
| "as_array (Texts xs) = xs"

definition own_types :: "entity list \<Rightarrow> bool" where
  "own_types es = list_all (\<lambda>e. entity_type e \<notin> set Object_prototype_names) es"

text \<open>\<^verbatim>\<open>entity.mentionText || ''\<close>\<close>

definition mention :: "entity \<Rightarrow> js_string" where
  "mention e = (case mentionText e of None \<Rightarrow> [] | Some s \<Rightarrow> s)"

definition add_entity ::
  "(js_string \<times> entity_value) list \<Rightarrow> entity \<Rightarrow> (js_string \<times> entity_value) list" where
  "add_entity entities e =
     (let key = entity_type e;
          val = mention e
      in case map_of entities key of
           None \<Rightarrow> obj_put key (Text val) entities
         | Some existing \<Rightarrow>
             if truthy existing then obj_put key (Texts (as_array existing @ [val])) entities
             else obj_put key (Text val) entities)"

text \<open>
  \<^verbatim>\<open>if (document.entities && Array.isArray(document.entities))\<close>: without a list of
  entities the object stays empty.
\<close>

definition collect_entities :: "entity list option \<Rightarrow> (js_string \<times> entity_value) list" where
  "collect_entities document_entities =
     (case document_entities of
        None \<Rightarrow> []
      | Some es \<Rightarrow> foldl add_entity [] es)"

text \<open>
  What the loop is meant to build for a type: nothing without a mention, the text of a
  single mention, the array of the texts of several, in the order of the document.
\<close>

definition mentions_of :: "js_string \<Rightarrow> entity list \<Rightarrow> js_string list" where
  "mentions_of k es = map mention (filter (\<lambda>e. entity_type e = k) es)"

fun grouped :: "js_string list \<Rightarrow> entity_value option" where
  "grouped [] = None"
| "grouped [s] = Some (Text s)"
| "grouped ss = Some (Texts ss)"

section \<open>Properties of objects\<close>

lemma map_fst_replace_value: "map fst (replace_value k v es) = map fst es"
  by (induction es) auto

lemma keys_replace_value: "fst ` set (replace_value k v es) = fst ` set es"
  using map_fst_replace_value [of k v es] by (metis set_map)

lemma keys_insert_index: "fst ` set (insert_index n k v es) = insert k (fst ` set es)"
proof (induction es)
  case Nil
  then show ?case by simp
next
  case (Cons e es)
  obtain k' v' where e: "e = (k', v')" by (cases e)
  show ?case
  proof (cases "array_index k'")
    case None
    with e show ?thesis by simp
  next
    case (Some m)
    with e Cons show ?thesis by (cases "m < n") (simp_all add: insert_commute)
  qed
qed

lemma keys_obj_put: "fst ` set (obj_put k v es) = insert k (fst ` set es)"
proof (cases "k \<in> fst ` set es")
  case True
  then show ?thesis by (simp add: obj_put_def keys_replace_value insert_absorb)
next
  case False
  then show ?thesis
    by (cases "array_index k") (simp_all add: obj_put_def keys_insert_index)
qed

lemma distinct_replace_value:
  "distinct (map fst es) \<Longrightarrow> distinct (map fst (replace_value k v es))"
  by (simp add: map_fst_replace_value)

lemma distinct_insert_index:
  "distinct (map fst es) \<Longrightarrow> k \<notin> fst ` set es \<Longrightarrow> distinct (map fst (insert_index n k v es))"
proof (induction es)
  case Nil
  then show ?case by simp
next
  case (Cons e es)
  obtain k' v' where e: "e = (k', v')" by (cases e)
  have keys: "fst ` set (insert_index n k v es) = insert k (fst ` set es)"
    by (rule keys_insert_index)
  from Cons.prems e have d: "distinct (map fst es)" and k': "k' \<notin> fst ` set es"
    and kk: "k \<noteq> k'" and kn: "k \<notin> fst ` set es"
    by auto
  show ?case
  proof (cases "array_index k'")
    case None
    with e d k' kk kn show ?thesis by auto
  next
    case (Some m)
    show ?thesis
    proof (cases "m < n")
      case True
      from Cons.IH [OF d kn] keys k' kk have "distinct (map fst ((k', v') # insert_index n k v es))"
        by auto
      with e Some True show ?thesis by simp
    next
      case False
      with e Some d k' kk kn show ?thesis by auto
    qed
  qed
qed

lemma distinct_obj_put:
  "distinct (map fst es) \<Longrightarrow> distinct (map fst (obj_put k v es))"
  by (auto simp: obj_put_def distinct_replace_value distinct_insert_index split: option.splits)

lemma keys_foldl_put:
  "fst ` set (foldl (\<lambda>acc x. obj_put (kf x) (vf x) acc) init xs) = fst ` set init \<union> kf ` set xs"
  by (induction xs arbitrary: init) (auto simp: keys_obj_put)

lemma distinct_foldl_put:
  "distinct (map fst init) \<Longrightarrow> distinct (map fst (foldl (\<lambda>acc x. obj_put (kf x) (vf x) acc) init xs))"
  by (induction xs arbitrary: init) (auto simp: distinct_obj_put)

lemma keys_select_fields: "fst ` set (select_fields nt schema j) = set schema"
  unfolding select_fields_def
  using keys_foldl_put [where kf = "\<lambda>key. key" and init = "[]" and xs = schema]
  by simp

lemma distinct_select_fields: "distinct (map fst (select_fields nt schema j))"
  unfolding select_fields_def
  by (rule distinct_foldl_put) simp

fun frame_ok :: "frame \<Rightarrow> bool" where
  "frame_ok (FArray vs) = True"
| "frame_ok (FObject es) = distinct (map fst es)"
| "frame_ok (FMember es k) = distinct (map fst es)"

fun value_ok :: "json \<Rightarrow> bool" where
  "value_ok (JObj es) = distinct (map fst es)"
| "value_ok v = True"

fun expect_ok :: "expect \<Rightarrow> bool" where
  "expect_ok (End v) = value_ok v"
| "expect_ok e = True"

lemma deliver_ok:
  "deliver st v = Some (st', e') \<Longrightarrow> list_all frame_ok st \<Longrightarrow> value_ok v
   \<Longrightarrow> list_all frame_ok st' \<and> expect_ok e'"
  by (cases "(st, v)" rule: deliver.cases) (auto simp: distinct_obj_put)

lemma start_value_ok:
  "start_value st t = Some (st', e') \<Longrightarrow> list_all frame_ok st
   \<Longrightarrow> list_all frame_ok st' \<and> expect_ok e'"
  by (cases "(st, t)" rule: start_value.cases) (auto dest: deliver_ok)

lemma step_ok:
  "step st e t = Some (st', e') \<Longrightarrow> list_all frame_ok st
   \<Longrightarrow> list_all frame_ok st' \<and> expect_ok e'"
  by (cases "(st, e, t)" rule: step.cases) (auto dest: deliver_ok start_value_ok)

lemma run_ok:
  "run st e ts = Some v \<Longrightarrow> list_all frame_ok st \<Longrightarrow> expect_ok e \<Longrightarrow> value_ok v"
proof (induction ts arbitrary: st e)
  case Nil
  then show ?case by (cases e) auto
next
  case (Cons t ts)
  from Cons.prems(1) obtain st' e' where s: "step st e t = Some (st', e')"
    and r: "run st' e' ts = Some v"
    by (auto split: option.splits)
  from step_ok [OF s Cons.prems(2)] Cons.IH [OF r] show ?case by simp
qed

lemma JSON_parse_distinct:
  "JSON_parse text = Some (JObj es) \<Longrightarrow> distinct (map fst es)"
proof -
  assume "JSON_parse text = Some (JObj es)"
  then obtain ts where "run [] Value ts = Some (JObj es)"
    by (auto simp: JSON_parse_def split: option.splits)
  from run_ok [OF this] show ?thesis by simp
qed

lemma map_of_replace_value:
  "map_of (replace_value k v es) x =
     (if x = k \<and> map_of es k \<noteq> None then Some v else map_of es x)"
  by (induction es) auto

lemma map_of_insert_index:
  "map_of es k = None \<Longrightarrow>
   map_of (insert_index n k v es) x = (if x = k then Some v else map_of es x)"
  by (induction es) (auto split: option.splits if_splits)

lemma map_of_snoc:
  "map_of es k = None \<Longrightarrow>
   map_of (es @ [(k, v)]) x = (if x = k then Some v else map_of es x)"
  by (induction es) auto

lemma map_of_obj_put: "map_of (obj_put k v es) x = (if x = k then Some v else map_of es x)"
proof (cases "k \<in> fst ` set es")
  case True
  then have "map_of es k \<noteq> None" by (simp add: map_of_eq_None_iff)
  with True show ?thesis by (simp add: obj_put_def map_of_replace_value)
next
  case False
  then have n: "map_of es k = None" by (simp add: map_of_eq_None_iff)
  with False show ?thesis
    by (cases "array_index k") (simp_all add: obj_put_def map_of_insert_index map_of_snoc del: map_of_append)
qed

lemma map_of_foldl_values:
  "distinct (map fst es) \<Longrightarrow>
   map_of (foldl (\<lambda>acc (key, val). obj_put key (f val) acc) init es) k =
     (case map_of es k of Some v \<Rightarrow> Some (f v) | None \<Rightarrow> map_of init k)"
proof (induction es arbitrary: init)
  case Nil
  then show ?case by simp
next
  case (Cons e es)
  obtain k' v' where e: "e = (k', v')" by (cases e)
  from Cons.prems e have d: "distinct (map fst es)" and n: "map_of es k' = None"
    by (auto simp: map_of_eq_None_iff)
  from Cons.IH [OF d, of "obj_put k' (f v') init"] e n show ?case
    by (auto simp: map_of_obj_put split: option.splits)
qed

lemma map_of_foldl_keys:
  "map_of (foldl (\<lambda>acc key. obj_put key (g key) acc) init xs) k =
     (if k \<in> set xs then Some (g k) else map_of init k)"
  by (induction xs arbitrary: init) (auto simp: map_of_obj_put)

lemma select_fields_lookup:
  "map_of (select_fields nt schema j) k =
     (if k \<in> set schema
      then Some (case map_of j k of Some v \<Rightarrow> JStr (String_js nt v) | None \<Rightarrow> JNull)
      else None)"
  unfolding select_fields_def by (simp add: map_of_foldl_keys)

lemma normalize_Inl_iff:
  "normalize nt rawText schema = Inl e \<longleftrightarrow> parse_flat_object nt (clean rawText) = Inl e"
  by (simp add: normalize_def split: sum.splits)

lemma parse_flat_object_JObj:
  "JSON_parse text = Some (JObj es) \<Longrightarrow>
   parse_flat_object nt text =
     Inr (foldl (\<lambda>acc (key, val). obj_put key (coerce_value nt val) acc) [] es)"
  by (simp add: parse_flat_object_def)

lemma flat_object_lookup:
  assumes "JSON_parse text = Some (JObj es)"
    and "parse_flat_object nt text = Inr j"
  shows "map_of j k = map_option (coerce_value nt) (map_of es k)"
proof -
  from assms have j: "j = foldl (\<lambda>acc (key, val). obj_put key (coerce_value nt val) acc) [] es"
    by (simp add: parse_flat_object_JObj)
  from JSON_parse_distinct [OF assms(1)] have "distinct (map fst es)" .
  from map_of_foldl_values [OF this, of "coerce_value nt" "[]" k] j show ?thesis
    by (simp split: option.splits)
qed

lemma flat_object_keys:
  assumes "JSON_parse text = Some (JObj es)"
    and "parse_flat_object nt text = Inr j"
  shows "fst ` set j = fst ` set es"
proof -
  from assms have j: "j = foldl (\<lambda>acc x. obj_put (fst x) (coerce_value nt (snd x)) acc) [] es"
    by (simp add: parse_flat_object_JObj case_prod_unfold)
  show ?thesis
    unfolding j using keys_foldl_put [where kf = fst and init = "[]" and xs = es] by simp
qed

lemma coerce_value_is_string: "\<exists>s. coerce_value nt v = JStr s"
  by (simp add: coerce_value_def)

section \<open>Properties of the cleaning\<close>


























section \<open>Serializing and parsing an object of strings\<close>

text \<open>
  \<open>string_object kvs\<close> is the object whose members are the pairs of \<open>kvs\<close>, every value
  a string. Its \<open>JSON.stringify\<close> text lexes to \<open>member_tokens kvs\<close> between braces, and
  parses to the object again. \<open>has_fence s\<close>: three backticks in a row occur in \<open>s\<close>.
\<close>

definition string_object :: "(js_string \<times> js_string) list \<Rightarrow> js_object" where
  "string_object kvs = map (\<lambda>(k, s). (k, JStr s)) kvs"

fun has_fence :: "js_string \<Rightarrow> bool" where
  "has_fence [] = False"
| "has_fence (c # cs) = (starts_with fence (c # cs) \<or> has_fence cs)"

fun member_tokens :: "(js_string \<times> js_string) list \<Rightarrow> token list" where
  "member_tokens [] = []"
| "member_tokens [(k, s)] = [TString k, TColon, TString s]"
| "member_tokens ((k, s) # m # ms) =
     TString k # TColon # TString s # TComma # member_tokens (m # ms)"

definition member_text :: "js_string \<times> js_string \<Rightarrow> js_string" where
  "member_text m = JSON_quote (fst m) @ 0x3A # JSON_quote (snd m)"

lemma hex_value_hex_digit:
  assumes "d < 16"
  shows "hex_value (hex_digit d) = Some d"
proof -
  from assms have n: "unat d < 16"
    by (simp add: word_less_nat_alt)
  have u1: "unat (0x30 + d) = 48 + unat d"
    using n unat_add_lem [of "0x30" d] by simp
  have u2: "unat (0x57 + d) = 87 + unat d"
    using n unat_add_lem [of "0x57" d] by simp
  show ?thesis
  proof (cases "d < 10")
    case True
    then have "unat d < 10" by (simp add: word_less_nat_alt)
    then have "0x30 \<le> 0x30 + d \<and> 0x30 + d \<le> 0x39"
      by (simp add: word_le_nat_alt u1)
    with True show ?thesis by (simp add: hex_value_def hex_digit_def)
  next
    case False
    then have "10 \<le> unat d" by (simp add: word_less_nat_alt)
    with n have "\<not> (0x57 + d \<le> 0x39)" "\<not> (0x57 + d \<le> 0x46)"
      "0x61 \<le> 0x57 + d" "0x57 + d \<le> 0x66"
      using u2 by (simp_all add: word_le_nat_alt)
    with False show ?thesis by (simp add: hex_value_def hex_digit_def)
  qed
qed

lemma div_4096: "(c::code_unit) div 4096 = c div 256 div 16"
  by (simp add: word_unat_eq_iff unat_div div_mult2_eq [symmetric])

lemma div_256: "(c::code_unit) div 256 = c div 16 div 16"
  by (simp add: word_unat_eq_iff unat_div div_mult2_eq [symmetric])

lemma mod_16_less: "(c::code_unit) mod 16 < 16"
  by (simp add: word_less_nat_alt unat_mod)

lemma nibbles:
  "(c::code_unit) div 4096 < 16" "c div 256 mod 16 < 16" "c div 16 mod 16 < 16" "c mod 16 < 16"
proof -
  have "unat c < 65536" using unsigned_less [of c, where 'a = nat] by simp
  then have "unat c div 4096 < 16" by (simp add: less_mult_imp_div_less)
  then show "c div 4096 < 16" by (simp add: word_less_nat_alt unat_div)
qed (rule mod_16_less)+

lemma hex_roundtrip:
  "((c div 4096 * 16 + c div 256 mod 16) * 16 + c div 16 mod 16) * 16 + c mod 16 = (c :: code_unit)"
proof -
  have a: "c div 256 div 16 * 16 + c div 256 mod 16 = c div 256"
    by (rule div_mult_mod_eq)
  have b: "c div 16 div 16 * 16 + c div 16 mod 16 = c div 16"
    by (rule div_mult_mod_eq)
  have "((c div 4096 * 16 + c div 256 mod 16) * 16 + c div 16 mod 16) * 16 + c mod 16
      = (c div 256 * 16 + c div 16 mod 16) * 16 + c mod 16"
    by (simp only: div_4096 a)
  also have "\<dots> = c div 16 * 16 + c mod 16"
    by (simp only: div_256 b)
  also have "\<dots> = c"
    by (rule div_mult_mod_eq)
  finally show ?thesis .
qed

lemma unhex4_unicode_escape:
  "unhex4 [hex_digit (c div 4096), hex_digit (c div 256 mod 16),
           hex_digit (c div 16 mod 16), hex_digit (c mod 16)] = Some c"
proof -
  have "map hex_value [hex_digit (c div 4096), hex_digit (c div 256 mod 16),
           hex_digit (c div 16 mod 16), hex_digit (c mod 16)]
      = [Some (c div 4096), Some (c div 256 mod 16), Some (c div 16 mod 16), Some (c mod 16)]"
    by (simp add: hex_value_hex_digit nibbles)
  then show ?thesis
    unfolding unhex4_def by (simp only: list.simps option.simps hex_roundtrip)
qed

lemma lex_string_unicode_escape:
  "lex_string (unicode_escape c @ r) = prepend c (lex_string r)"
  by (simp add: unicode_escape_def unhex4_unicode_escape)

lemma lex_string_escape_unit:
  "lex_string (escape_unit c @ r) = prepend c (lex_string r)"
proof (cases "c < 0x20 \<or> is_surrogate c")
  case True
  then show ?thesis
    by (auto simp: escape_unit_def lex_string_unicode_escape escape_char_def)
next
  case False
  then show ?thesis
    by (auto simp: escape_unit_def escape_char_def)
qed

lemma prepend_Some: "prepend c (Some (s, r)) = Some (c # s, r)"
  by (simp add: prepend_def)

lemma lex_string_quote_units:
  "lex_string (quote_units s @ 0x22 # rest) = Some (s, rest)"
proof (induction s rule: quote_units.induct)
  case 1
  show ?case by simp
next
  case (2 c)
  have "lex_string (escape_unit c @ 0x22 # rest) = prepend c (lex_string (0x22 # rest))"
    by (rule lex_string_escape_unit)
  then show ?case by (simp add: prepend_Some)
next
  case (3 c d r)
  show ?case
  proof (cases "is_high_surrogate c \<and> is_low_surrogate d")
    case True
    then have hc: "0xD800 \<le> c" and hd: "0xDC00 \<le> d"
      by (simp_all add: is_high_surrogate_def is_low_surrogate_def)
    have c: "c \<noteq> 0x22" "c \<noteq> 0x5C" "\<not> c < 0x20"
      using hc order_le_less_trans [of "0xD800" c "0x20"] by auto
    have d: "d \<noteq> 0x22" "d \<noteq> 0x5C" "\<not> d < 0x20"
      using hd order_le_less_trans [of "0xDC00" d "0x20"] by auto
    from True 3(1) c d show ?thesis by (simp add: prepend_Some)
  next
    case False
    from False have q: "quote_units (c # d # r) = escape_unit c @ quote_units (d # r)"
      by (simp only: quote_units.simps if_False)
    have "lex_string (escape_unit c @ quote_units (d # r) @ 0x22 # rest)
        = prepend c (lex_string (quote_units (d # r) @ 0x22 # rest))"
      by (rule lex_string_escape_unit)
    also have "\<dots> = Some (c # d # r, rest)"
      by (simp only: 3(2) [OF False] prepend_Some)
    finally show ?thesis
      by (simp only: q append_assoc)
  qed
qed

lemma lex_JSON_quote: "lex (JSON_quote s @ rest) = cons_token (TString s) (lex rest)"
  by (simp add: JSON_quote_def lex_string_quote_units is_json_ws_def)

lemma stringify_string_object:
  "JSON_stringify nt (JObj (string_object kvs)) = 0x7B # join [0x2C] (map member_text kvs) @ [0x7D]"
  by (simp add: string_object_def member_text_def [abs_def] case_prod_unfold comp_def)

lemma lex_colon: "lex (0x3A # r) = cons_token TColon (lex r)"
  by (simp add: is_json_ws_def)

lemma lex_comma: "lex (0x2C # r) = cons_token TComma (lex r)"
  by (simp add: is_json_ws_def)

lemma lex_member_text:
  "lex (member_text (k, s) @ rest)
     = map_option (\<lambda>ts. TString k # TColon # TString s # ts) (lex rest)"
proof -
  have "lex (member_text (k, s) @ rest) = lex (JSON_quote k @ 0x3A # JSON_quote s @ rest)"
    by (simp add: member_text_def)
  also have "\<dots> = cons_token (TString k) (cons_token TColon (cons_token (TString s) (lex rest)))"
    by (simp only: lex_JSON_quote lex_colon)
  finally show ?thesis
    by (simp add: cons_token_def option.map_comp comp_def)
qed

lemma lex_members:
  "lex (join [0x2C] (map member_text kvs) @ rest)
     = map_option (\<lambda>ts. member_tokens kvs @ ts) (lex rest)"
proof (induction kvs rule: member_tokens.induct)
  case 1
  show ?case by (simp add: option.map_ident)
next
  case (2 k s)
  show ?case by (simp add: lex_member_text)
next
  case (3 k s m ms)
  have "lex (join [0x2C] (map member_text ((k, s) # m # ms)) @ rest)
      = lex (member_text (k, s) @ 0x2C # join [0x2C] (map member_text (m # ms)) @ rest)"
    by simp
  also have "\<dots> = map_option (\<lambda>ts. TString k # TColon # TString s # ts)
      (cons_token TComma (lex (join [0x2C] (map member_text (m # ms)) @ rest)))"
    by (simp only: lex_member_text lex_comma)
  also have "\<dots> = map_option (\<lambda>ts. TString k # TColon # TString s # ts)
      (cons_token TComma (map_option (\<lambda>ts. member_tokens (m # ms) @ ts) (lex rest)))"
    by (simp only: 3)
  also have "\<dots> = map_option (\<lambda>ts. member_tokens ((k, s) # m # ms) @ ts) (lex rest)"
    by (simp add: cons_token_def option.map_comp comp_def)
  finally show ?case .
qed

lemma lex_string_object:
  "lex (JSON_stringify nt (JObj (string_object kvs))) = Some (TLBrace # member_tokens kvs @ [TRBrace])"
proof -
  have "lex [0x7D] = Some [TRBrace]"
    by (simp add: is_json_ws_def cons_token_def)
  then have "lex (join [0x2C] (map member_text kvs) @ [0x7D]) = Some (member_tokens kvs @ [TRBrace])"
    by (simp add: lex_members)
  then show ?thesis
    unfolding stringify_string_object by (simp add: is_json_ws_def cons_token_def)
qed

lemma run_members:
  "kvs \<noteq> [] \<Longrightarrow> e = Key \<or> e = KeyOrClose \<Longrightarrow>
   run (FObject es # st) e (member_tokens kvs @ ts)
     = run (FObject (foldl (\<lambda>acc (k, s). obj_put k (JStr s) acc) es kvs) # st) CommaOrClose ts"
proof (induction kvs arbitrary: es e rule: member_tokens.induct)
  case 1
  then show ?case by simp
next
  case (2 k s)
  then show ?case by auto
next
  case (3 k s m ms)
  have "run (FObject es # st) e (member_tokens ((k, s) # m # ms) @ ts)
      = run (FObject (obj_put k (JStr s) es) # st) Key (member_tokens (m # ms) @ ts)"
    using 3(3) by auto
  also have "\<dots> = run (FObject (foldl (\<lambda>acc (k, s). obj_put k (JStr s) acc)
      (obj_put k (JStr s) es) (m # ms)) # st) CommaOrClose ts"
    by (rule 3(1)) simp_all
  finally show ?case by simp
qed

lemma JSON_parse_string_object:
  "JSON_parse (JSON_stringify nt (JObj (string_object kvs)))
     = Some (JObj (foldl (\<lambda>acc (k, s). obj_put k (JStr s) acc) [] kvs))"
proof (cases "kvs = []")
  case True
  show ?thesis
    unfolding JSON_parse_def lex_string_object by (simp add: True)
next
  case False
  have "run [] Value (TLBrace # member_tokens kvs @ [TRBrace])
      = run [FObject []] KeyOrClose (member_tokens kvs @ [TRBrace])"
    by simp
  also have "\<dots> = run [FObject (foldl (\<lambda>acc (k, s). obj_put k (JStr s) acc) [] kvs)]
      CommaOrClose [TRBrace]"
    by (rule run_members [OF False]) simp
  also have "\<dots> = Some (JObj (foldl (\<lambda>acc (k, s). obj_put k (JStr s) acc) [] kvs))"
    by simp
  finally show ?thesis
    unfolding JSON_parse_def lex_string_object by simp
qed

lemma starts_with_appendD: "starts_with (p @ q) s \<Longrightarrow> starts_with p s"
  unfolding starts_with_def
proof -
  assume a: "take (length (p @ q)) s = p @ q"
  have "take (length p) s = take (length p) (take (length (p @ q)) s)"
    by (simp add: min_def)
  also have "\<dots> = take (length p) (p @ q)"
    by (simp only: a)
  also have "\<dots> = p"
    by simp
  finally show "take (length p) s = p" .
qed

lemma fence_match_no_fence: "\<not> has_fence (c # cs) \<Longrightarrow> fence_match (c # cs) = None"
proof -
  assume a: "\<not> has_fence (c # cs)"
  then have 1: "\<not> starts_with fence (c # cs)" and 2: "\<not> has_fence cs"
    by simp_all
  from 1 have 3: "\<not> starts_with fence_json (c # cs)"
    unfolding fence_json_def by (blast dest: starts_with_appendD)
  have 4: "\<not> starts_with (newline # fence) (c # cs)"
  proof
    assume "starts_with (newline # fence) (c # cs)"
    then have "starts_with fence cs"
      by (simp add: starts_with_def fence_def)
    with 2 show False by (cases cs) (simp_all add: starts_with_def fence_def)
  qed
  from 1 3 4 show ?thesis by (simp add: fence_match_def)
qed

lemma strip_fences_no_fence: "\<not> has_fence s \<Longrightarrow> strip_fences s = s"
proof (induction s)
  case Nil
  show ?case by simp
next
  case (Cons c cs)
  from Cons.prems have "\<not> has_fence cs" by simp
  with Cons.IH fence_match_no_fence [OF Cons.prems] show ?case by simp
qed

lemma trim_braces: "trim (0x7B # m @ [0x7D]) = 0x7B # m @ [0x7D]"
  by (simp add: trim_def is_js_whitespace_def)

lemma clean_string_object:
  assumes "\<not> has_fence (JSON_stringify nt (JObj (string_object kvs)))"
  shows "clean (JSON_stringify nt (JObj (string_object kvs)))
    = JSON_stringify nt (JObj (string_object kvs))"
proof -
  have "clean (JSON_stringify nt (JObj (string_object kvs)))
      = trim (JSON_stringify nt (JObj (string_object kvs)))"
    by (simp only: clean_def strip_fences_no_fence [OF assms])
  also have "\<dots> = JSON_stringify nt (JObj (string_object kvs))"
    by (simp only: stringify_string_object trim_braces)
  finally show ?thesis .
qed

lemma map_of_string_object_put:
  assumes "distinct (map fst kvs)"
  shows "map_of (foldl (\<lambda>acc (k, s). obj_put k (JStr s) acc) [] kvs) f
    = map_option JStr (map_of kvs f)"
  using map_of_foldl_values [OF assms, of JStr "[]" f]
  by (simp split: option.splits)

section \<open>Properties of the entities loop\<close>

text \<open>
  Where no mention is empty (and the types are in the model), the loop builds what it is
  meant to build.
\<close>

lemma map_of_add_entity:
  "map_of (add_entity ents e) k =
     (if k = entity_type e then
        (case map_of ents k of
           None \<Rightarrow> Some (Text (mention e))
         | Some existing \<Rightarrow>
             if truthy existing then Some (Texts (as_array existing @ [mention e]))
             else Some (Text (mention e)))
      else map_of ents k)"
  by (auto simp: add_entity_def Let_def map_of_obj_put split: option.splits)

lemma grouped_snoc:
  "\<forall>s \<in> set ss. s \<noteq> [] \<Longrightarrow>
   grouped (ss @ [s]) =
     (case grouped ss of
        None \<Rightarrow> Some (Text s)
      | Some existing \<Rightarrow>
          if truthy existing then Some (Texts (as_array existing @ [s])) else Some (Text s))"
  by (cases ss rule: grouped.cases) auto

lemma collect_entities_nonempty:
  assumes "own_types es" and "\<forall>e \<in> set es. mention e \<noteq> []"
  shows "map_of (collect_entities (Some es)) k = grouped (mentions_of k es)"
  using assms(2)
proof (induction es rule: rev_induct)
  case Nil
  show ?case by (simp add: collect_entities_def mentions_of_def)
next
  case (snoc e es)
  then have ih: "map_of (foldl add_entity [] es) k = grouped (mentions_of k es)"
    by (simp add: collect_entities_def)
  from snoc.prems have ne: "\<forall>s \<in> set (mentions_of k es). s \<noteq> []"
    by (auto simp: mentions_of_def)
  show ?case
  proof (cases "k = entity_type e")
    case True
    then have "mentions_of k (es @ [e]) = mentions_of k es @ [mention e]"
      by (simp add: mentions_of_def)
    with True ih grouped_snoc [OF ne, of "mention e"] show ?thesis
      by (simp add: collect_entities_def map_of_add_entity)
  next
    case False
    then have "mentions_of k (es @ [e]) = mentions_of k es"
      by (simp add: mentions_of_def)
    with False ih show ?thesis
      by (simp add: collect_entities_def map_of_add_entity)
  qed
qed

section \<open>The handlers without allowed keys\<close>

text \<open>
  \<open>/api/gemini\<close> and \<open>/prompt\<close> of \<open>server.js\<close> have no schema: where they succeed,
  the object under \<open>jsonResponse\<close> has the keys of the parsed object, all of them and
  no other.
\<close>

lemma api_gemini_keys:
  assumes "JSON_parse (clean rawText) = Some (JObj es)"
  shows "\<exists>jsonResponse.
           api_gemini nt node_env rawText = \<lparr>status = 200, body = Body_jsonResponse jsonResponse\<rparr>
         \<and> fst ` set jsonResponse = fst ` set es"
proof -
  define j where "j = foldl (\<lambda>acc (key, val). obj_put key (coerce_value nt val) acc) [] es"
  have pj: "parse_flat_object nt (clean rawText) = Inr j"
    unfolding j_def by (rule parse_flat_object_JObj [OF assms])
  then have "api_gemini nt node_env rawText = \<lparr>status = 200, body = Body_jsonResponse j\<rparr>"
    by (simp add: api_gemini_def)
  with flat_object_keys [OF assms pj] show ?thesis by blast
qed

lemma prompt_server_keys:
  assumes "JSON_parse rawText = Some (JObj es)"
  shows "\<exists>jsonResponse.
           prompt_server nt node_env rawText = \<lparr>status = 200, body = Body_jsonResponse jsonResponse\<rparr>
         \<and> fst ` set jsonResponse = fst ` set es"
proof -
  define j where "j = foldl (\<lambda>acc (key, val). obj_put key (coerce_value nt val) acc) [] es"
  have pj: "parse_flat_object nt rawText = Inr j"
    unfolding j_def by (rule parse_flat_object_JObj [OF assms])
  then have "prompt_server nt node_env rawText = \<lparr>status = 200, body = Body_jsonResponse j\<rparr>"
    by (simp add: prompt_server_def)
  with flat_object_keys [OF assms pj] show ?thesis by blast
qed

section \<open>The allowed keys\<close>

text \<open>No allowed key is a name that objects inherit, and no key is listed twice.\<close>

lemma allowedKeys_own: "set allowedKeys \<inter> set Object_prototype_names = {}"
  by code_simp

lemma allowedKeys_distinct: "distinct allowedKeys"
  by code_simp

section \<open>The cleaning in the words of the specification\<close>






section \<open>Worked example\<close>

text \<open>
  The example of the specification, extended by a field that is \<open>null\<close> and by a key
  the schema does not have:
  \<open>{"Name": "Ali", "Skills": ["Cooking","Cleaning"], "Religion": null, "extra": 5}\<close>
  against the schema \<open>[Name, Skills, Age, Religion]\<close>.
\<close>

definition example_schema :: "js_string list" where
  "example_schema = map js [''Name'', ''Skills'', ''Age'', ''Religion'']"

definition example_text :: js_string where
  "example_text = js ''{''
     @ 0x22 # js ''Name'' @ 0x22 # js '': '' @ 0x22 # js ''Ali'' @ 0x22 # js '', ''
     @ 0x22 # js ''Skills'' @ 0x22 # js '': ['' @ 0x22 # js ''Cooking'' @ 0x22 # js '',''
     @ 0x22 # js ''Cleaning'' @ 0x22 # js ''], ''
     @ 0x22 # js ''Religion'' @ 0x22 # js '': null, ''
     @ 0x22 # js ''extra'' @ 0x22 # js '': 5}''"

definition example_parsed :: js_object where
  "example_parsed =
     [(js ''Name'', JStr (js ''Ali'')),
      (js ''Skills'', JArr [JStr (js ''Cooking''), JStr (js ''Cleaning'')]),
      (js ''Religion'', JNull),
      (js ''extra'', JNum (js ''5''))]"

definition example_skills :: js_string where
  "example_skills =
     0x5B # 0x22 # js ''Cooking'' @ 0x22 # 0x2C # 0x22 # js ''Cleaning'' @ [0x22, 0x5D]"

definition example_coerced :: js_object where
  "example_coerced =
     [(js ''Name'', JStr (js ''Ali'')),
      (js ''Skills'', JStr example_skills),
      (js ''Religion'', JStr (js ''null'')),
      (js ''extra'', JStr (js ''5''))]"

definition example_result :: js_object where
  "example_result =
     [(js ''Name'', JStr (js ''Ali'')),
      (js ''Skills'', JStr example_skills),
      (js ''Age'', JNull),
      (js ''Religion'', JStr (js ''null''))]"

lemma example_parse: "JSON_parse (clean example_text) = Some (JObj example_parsed)"
  by code_simp

lemma example_flat: "parse_flat_object id (clean example_text) = Inr example_coerced"
  by code_simp

lemma example_normalize: "normalize id example_text example_schema = Inr example_result"
  by code_simp

text \<open>Two texts that are not objects: an array, and text that is not JSON.\<close>

definition array_text :: js_string where
  "array_text = js ''[1,2,3]''"

definition plain_text :: js_string where
  "plain_text = js ''Name: Ali''"

lemma array_parse:
  "JSON_parse (clean array_text) = Some (JArr [JNum (js ''1''), JNum (js ''2''), JNum (js ''3'')])"
  by code_simp

lemma plain_parse: "JSON_parse (clean plain_text) = None"
  by code_simp









definition backtick_value_text :: js_string where
  "backtick_value_text =
     js ''{'' @ 0x22 # js ''Name'' @ 0x22 # js '':'' @ 0x22 # js ''a'' @ fence @ js ''b'' @ 0x22 # js ''}''"


text \<open>Two objects of strings, the second with three backticks inside its value.\<close>

definition example_strings :: "(js_string \<times> js_string) list" where
  "example_strings = [(js ''Name'', js ''Ali''), (js ''Religion'', js ''Islam'')]"

definition example_strings_result :: js_object where
  "example_strings_result =
     [(js ''Name'', JStr (js ''Ali'')), (js ''Skills'', JNull), (js ''Age'', JNull),
      (js ''Religion'', JStr (js ''Islam''))]"

definition backtick_strings :: "(js_string \<times> js_string) list" where
  "backtick_strings = [(js ''Name'', js ''a'' @ fence @ js ''b'')]"

text \<open>
  Entities of a document: a type with two mentions, and a type whose first mention has no
  text.
\<close>

definition two_mentions :: "entity list" where
  "two_mentions =
     [\<lparr>entity_type = js ''skill'', mentionText = Some (js ''Cooking'')\<rparr>,
      \<lparr>entity_type = js ''name'', mentionText = Some (js ''Ali'')\<rparr>,
      \<lparr>entity_type = js ''skill'', mentionText = Some (js ''Cleaning'')\<rparr>]"

definition empty_first_mention :: "entity list" where
  "empty_first_mention =
     [\<lparr>entity_type = js ''name'', mentionText = Some []\<rparr>,
      \<lparr>entity_type = js ''name'', mentionText = Some (js ''Ali'')\<rparr>]"

section \<open>The claims\<close>

text \<open>
  C1, as amended. Whenever \<open>normalize\<close> succeeds, the keys of the result are exactly the
  fields of the schema, each once, whatever keys the parsed object had. The handlers of
  \<open>server.js\<close> have no list of allowed keys and apply no schema: where the text they parse
  is an object, the keys under \<open>jsonResponse\<close> are the keys of that object. So the claim
  as stated fails there: a key outside any schema stays, and a field that is missing stays
  missing.
\<close>

theorem normalize_keys:
  "(normalize nt rawText schema = Inr result \<longrightarrow>
      fst ` set result = set schema \<and> distinct (map fst result))
   \<and> (JSON_parse (clean rawText) = Some (JObj es) \<longrightarrow>
        (\<exists>jsonResponse.
           api_gemini nt node_env rawText
             = \<lparr>status = 200, body = Body_jsonResponse jsonResponse\<rparr>
         \<and> fst ` set jsonResponse = fst ` set es))
   \<and> (JSON_parse rawText = Some (JObj es) \<longrightarrow>
        (\<exists>jsonResponse.
           prompt_server nt node_env rawText
             = \<lparr>status = 200, body = Body_jsonResponse jsonResponse\<rparr>
         \<and> fst ` set jsonResponse = fst ` set es))"
proof -
  have a: "fst ` set result = set schema \<and> distinct (map fst result)"
    if "normalize nt rawText schema = Inr result"
  proof -
    from that obtain jsonResponse where "result = select_fields nt schema jsonResponse"
      by (auto simp: normalize_def split: sum.splits)
    then show ?thesis
      by (simp only: keys_select_fields distinct_select_fields)
  qed
  from a api_gemini_keys [of rawText es nt node_env] prompt_server_keys [of rawText es nt node_env]
  show ?thesis by blast
qed

theorem normalize_keys_witness:
  "normalize id example_text example_schema = Inr example_result
   \<and> fst ` set example_result = set example_schema
   \<and> distinct (map fst example_result)
   \<and> JSON_parse (clean example_text) = Some (JObj example_parsed)
   \<and> api_gemini id None example_text
       = \<lparr>status = 200, body = Body_jsonResponse example_coerced\<rparr>
   \<and> fst ` set example_coerced = fst ` set example_parsed"
proof -
  have h: "api_gemini id None example_text
      = \<lparr>status = 200, body = Body_jsonResponse example_coerced\<rparr>"
    by (simp add: api_gemini_def example_flat)
  from normalize_keys [where nt = id and rawText = example_text and schema = example_schema
      and result = example_result and es = example_parsed and node_env = None]
    example_normalize example_parse h
  show ?thesis by simp
qed

theorem unfiltered_keys_counterexample:
  "api_gemini id None example_text
     = \<lparr>status = 200, body = Body_jsonResponse example_coerced\<rparr>
   \<and> js ''extra'' \<in> fst ` set example_coerced
   \<and> js ''extra'' \<notin> set example_schema
   \<and> js ''Age'' \<in> set example_schema
   \<and> js ''Age'' \<notin> fst ` set example_coerced"
proof -
  have h: "api_gemini id None example_text
      = \<lparr>status = 200, body = Body_jsonResponse example_coerced\<rparr>"
    by (simp add: api_gemini_def example_flat)
  have a: "js ''extra'' \<in> fst ` set example_coerced"
    by code_simp
  have b: "js ''extra'' \<notin> set example_schema"
    by code_simp
  have c: "js ''Age'' \<in> set example_schema"
    by code_simp
  have d: "js ''Age'' \<notin> fst ` set example_coerced"
    by code_simp
  from h a b c d show ?thesis by simp
qed




text \<open>
  C5. Where the cleaned text is the JSON of an object, every value is coerced: an array or
  an object to its \<open>JSON.stringify\<close> text, a number to its text, a boolean to \<open>true\<close>
  or \<open>false\<close>, a string to itself. The coerced object has the keys of the parsed one, and
  the normalized result takes the coerced value of every field of the schema that is
  there; every value of the result is a string or \<open>null\<close>.
\<close>

theorem values_coerced:
  assumes "JSON_parse (clean rawText) = Some (JObj es)"
  shows "(\<exists>jsonResponse result.
            parse_flat_object nt (clean rawText) = Inr jsonResponse
          \<and> normalize nt rawText schema = Inr result
          \<and> fst ` set jsonResponse = fst ` set es
          \<and> (\<forall>k v. map_of es k = Some v \<longrightarrow> map_of jsonResponse k = Some (coerce_value nt v))
          \<and> (\<forall>k v. k \<in> set schema \<and> map_of es k = Some v
                 \<longrightarrow> map_of result k = Some (coerce_value nt v))
          \<and> (\<forall>k v. map_of result k = Some v \<longrightarrow> (\<exists>s. v = JStr s) \<or> v = JNull))
       \<and> (\<forall>vs. coerce_value nt (JArr vs) = JStr (JSON_stringify nt (JArr vs)))
       \<and> (\<forall>ms. coerce_value nt (JObj ms) = JStr (JSON_stringify nt (JObj ms)))
       \<and> (\<forall>lit. coerce_value nt (JNum lit) = JStr (nt lit))
       \<and> coerce_value nt (JBool True) = JStr (js ''true'')
       \<and> coerce_value nt (JBool False) = JStr (js ''false'')
       \<and> (\<forall>s. coerce_value nt (JStr s) = JStr s)"
proof -
  define j where "j = foldl (\<lambda>acc (key, val). obj_put key (coerce_value nt val) acc) [] es"
  define r where "r = select_fields nt schema j"
  have pj: "parse_flat_object nt (clean rawText) = Inr j"
    unfolding j_def by (rule parse_flat_object_JObj [OF assms])
  then have nr: "normalize nt rawText schema = Inr r"
    by (simp add: normalize_def r_def)
  have keys: "fst ` set j = fst ` set es"
    by (rule flat_object_keys [OF assms pj])
  have look: "map_of j k = map_option (coerce_value nt) (map_of es k)" for k
    by (rule flat_object_lookup [OF assms pj])
  have a: "\<forall>k v. map_of es k = Some v \<longrightarrow> map_of j k = Some (coerce_value nt v)"
    by (simp add: look)
  have rl: "map_of r k =
      (if k \<in> set schema
       then Some (case map_of j k of Some v \<Rightarrow> JStr (String_js nt v) | None \<Rightarrow> JNull)
       else None)" for k
    unfolding r_def by (rule select_fields_lookup)
  have b: "\<forall>k v. k \<in> set schema \<and> map_of es k = Some v
             \<longrightarrow> map_of r k = Some (coerce_value nt v)"
    by (auto simp: rl look coerce_value_def)
  have c: "\<forall>k v. map_of r k = Some v \<longrightarrow> (\<exists>s. v = JStr s) \<or> v = JNull"
    by (auto simp: rl split: if_splits option.splits)
  have d: "(\<forall>vs. coerce_value nt (JArr vs) = JStr (JSON_stringify nt (JArr vs)))
       \<and> (\<forall>ms. coerce_value nt (JObj ms) = JStr (JSON_stringify nt (JObj ms)))
       \<and> (\<forall>lit. coerce_value nt (JNum lit) = JStr (nt lit))
       \<and> coerce_value nt (JBool True) = JStr (js ''true'')
       \<and> coerce_value nt (JBool False) = JStr (js ''false'')
       \<and> (\<forall>s. coerce_value nt (JStr s) = JStr s)"
    by (simp add: coerce_value_def)
  from pj nr keys a b c d show ?thesis by blast
qed

theorem values_coerced_witness:
  "JSON_parse (clean example_text) = Some (JObj example_parsed)
   \<and> map_of example_coerced (js ''Skills'')
       = Some (coerce_value id (JArr [JStr (js ''Cooking''), JStr (js ''Cleaning'')]))
   \<and> map_of example_result (js ''Skills'')
       = Some (coerce_value id (JArr [JStr (js ''Cooking''), JStr (js ''Cleaning'')]))
   \<and> coerce_value id (JArr [JStr (js ''Cooking''), JStr (js ''Cleaning'')]) = JStr example_skills
   \<and> map_of example_coerced (js ''extra'') = Some (JStr (js ''5''))"
proof -
  have s: "map_of example_parsed (js ''Skills'')
      = Some (JArr [JStr (js ''Cooking''), JStr (js ''Cleaning'')])"
    by code_simp
  have x: "map_of example_parsed (js ''extra'') = Some (JNum (js ''5''))"
    by code_simp
  have m: "js ''Skills'' \<in> set example_schema"
    by code_simp
  have c: "coerce_value id (JArr [JStr (js ''Cooking''), JStr (js ''Cleaning'')]) = JStr example_skills"
    by code_simp
  from values_coerced [OF example_parse, of id example_schema] s x m c
    example_flat example_normalize example_parse
  show ?thesis by (auto simp: coerce_value_def)
qed

text \<open>
  C7. A field whose value in the parsed object is \<open>null\<close> comes out as the string
  \<open>null\<close> (\<open>String(null)\<close>), not as \<open>null\<close>; a field of the schema is \<open>null\<close> in the
  result exactly when the parsed object has no such key.
\<close>

theorem null_value_coerced:
  assumes "JSON_parse (clean rawText) = Some (JObj es)"
    and "k \<in> set schema"
  shows "coerce_value nt JNull = JStr (js ''null'')
       \<and> (\<exists>result. normalize nt rawText schema = Inr result
            \<and> (map_of es k = Some JNull \<longrightarrow> map_of result k = Some (JStr (js ''null'')))
            \<and> ((map_of result k = Some JNull) = (k \<notin> fst ` set es)))"
proof -
  define j where "j = foldl (\<lambda>acc (key, val). obj_put key (coerce_value nt val) acc) [] es"
  define r where "r = select_fields nt schema j"
  have pj: "parse_flat_object nt (clean rawText) = Inr j"
    unfolding j_def by (rule parse_flat_object_JObj [OF assms(1)])
  then have nr: "normalize nt rawText schema = Inr r"
    by (simp add: normalize_def r_def)
  have look: "map_of j k = map_option (coerce_value nt) (map_of es k)"
    by (rule flat_object_lookup [OF assms(1) pj])
  have rl: "map_of r k = Some (case map_of j k of Some v \<Rightarrow> JStr (String_js nt v) | None \<Rightarrow> JNull)"
    unfolding r_def using assms(2) by (simp add: select_fields_lookup)
  have a: "map_of es k = Some JNull \<longrightarrow> map_of r k = Some (JStr (js ''null''))"
    by (simp add: rl look coerce_value_def)
  have b: "(map_of r k = Some JNull) = (k \<notin> fst ` set es)"
    by (cases "map_of es k") (simp_all add: rl look map_of_eq_None_iff [symmetric])
  have c: "coerce_value nt JNull = JStr (js ''null'')"
    by (simp add: coerce_value_def)
  from nr a b c show ?thesis by blast
qed

theorem null_value_coerced_witness:
  "map_of example_parsed (js ''Religion'') = Some JNull
   \<and> map_of example_result (js ''Religion'') = Some (JStr (js ''null''))
   \<and> map_of example_result (js ''Age'') = Some JNull
   \<and> js ''Age'' \<notin> fst ` set example_parsed"
proof -
  have r: "js ''Religion'' \<in> set example_schema" and a: "js ''Age'' \<in> set example_schema"
    by code_simp+
  have p: "map_of example_parsed (js ''Religion'') = Some JNull"
    by code_simp
  have q: "js ''Age'' \<notin> fst ` set example_parsed"
    by code_simp
  from null_value_coerced [OF example_parse r, of id] null_value_coerced [OF example_parse a, of id]
    p q example_normalize
  show ?thesis by simp
qed

text \<open>
  C6. From the text on, a handler answers in one of two ways: with status 200 and the result
  under \<open>jsonResponse\<close> where the normalization succeeds, with status 500 and the error
  body where it fails. Stated for \<open>/api/gemini\<close> with the allowed keys, against
  \<open>normalize\<close>, and for \<open>/api/gemini\<close> of \<open>server.js\<close>, against the \<open>try\<close> block.
\<close>

theorem handler_outcomes:
  "(case normalize nt rawText allowedKeys of
      Inr result \<Rightarrow>
        api_gemini_allowed nt node_env rawText = \<lparr>status = 200, body = Body_jsonResponse result\<rparr>
    | Inl e \<Rightarrow>
        api_gemini_allowed nt node_env rawText =
          \<lparr>status = 500,
           body = Body_error parse_failure_text
                    (if development node_env then Some e else None)
                    (if development node_env then Some (clean rawText) else None)\<rparr>)
   \<and> (case parse_flat_object nt (clean rawText) of
        Inr jsonResponse \<Rightarrow>
          api_gemini nt node_env rawText = \<lparr>status = 200, body = Body_jsonResponse jsonResponse\<rparr>
      | Inl e \<Rightarrow>
          api_gemini nt node_env rawText =
            \<lparr>status = 500,
             body = Body_error parse_failure_text
                      (if development node_env then Some e else None)
                      (if development node_env then Some (clean rawText) else None)\<rparr>)
   \<and> (status (api_gemini_allowed nt node_env rawText) = 200
        \<or> status (api_gemini_allowed nt node_env rawText) = 500)
   \<and> (status (api_gemini nt node_env rawText) = 200
        \<or> status (api_gemini nt node_env rawText) = 500)"
  by (simp add: normalize_def api_gemini_allowed_def api_gemini_def Let_def split: sum.splits)

theorem handler_outcomes_witness:
  "api_gemini_allowed id None example_text
     = \<lparr>status = 200, body = Body_jsonResponse (select_fields id allowedKeys example_coerced)\<rparr>
   \<and> api_gemini id None example_text = \<lparr>status = 200, body = Body_jsonResponse example_coerced\<rparr>
   \<and> api_gemini_allowed id None array_text
     = \<lparr>status = 500, body = Body_error parse_failure_text None None\<rparr>
   \<and> api_gemini id None array_text
     = \<lparr>status = 500, body = Body_error parse_failure_text None None\<rparr>"
proof -
  have a: "parse_flat_object id (clean array_text) = Inl Not_flat_object"
    by (simp add: parse_flat_object_def array_parse)
  have d: "\<not> development None"
    by (simp add: development_def)
  from handler_outcomes [where nt = id and rawText = example_text and node_env = None]
    handler_outcomes [where nt = id and rawText = array_text and node_env = None]
    example_flat a d
  show ?thesis by (simp add: normalize_def)
qed

text \<open>
  C8. The error body carries \<open>details\<close> or \<open>rawResponse\<close> only when \<open>NODE_ENV\<close> is
  \<open>development\<close>. Otherwise two texts that both fail get the same response: status 500 and
  the fixed message alone.
\<close>

theorem diagnostics_gated:
  "(\<forall>m d r. (body (api_gemini_allowed nt node_env rawText) = Body_error m d r
              \<or> body (api_gemini nt node_env rawText) = Body_error m d r
              \<or> body (prompt_server nt node_env rawText) = Body_error m d r
              \<or> body (prompt_cleaned nt node_env rawText) = Body_error m d r)
            \<and> (d \<noteq> None \<or> r \<noteq> None) \<longrightarrow> development node_env)
   \<and> (\<not> development node_env
        \<and> normalize nt ta schema = Inl ea \<and> normalize nt tb schema = Inl eb
      \<longrightarrow> api_gemini_allowed nt node_env ta = api_gemini_allowed nt node_env tb
        \<and> api_gemini nt node_env ta = api_gemini nt node_env tb
        \<and> api_gemini nt node_env ta
            = \<lparr>status = 500, body = Body_error parse_failure_text None None\<rparr>)"
  by (auto simp: normalize_Inl_iff api_gemini_allowed_def api_gemini_def prompt_server_def
      prompt_cleaned_def Let_def split: sum.splits if_splits)

theorem diagnostics_gated_witness:
  "\<not> development (Some (js ''production''))
   \<and> array_text \<noteq> plain_text
   \<and> normalize id array_text allowedKeys = Inl Not_flat_object
   \<and> normalize id plain_text allowedKeys = Inl Syntax_error
   \<and> api_gemini_allowed id (Some (js ''production'')) array_text
       = api_gemini_allowed id (Some (js ''production'')) plain_text
   \<and> api_gemini id (Some (js ''production'')) array_text
       = api_gemini id (Some (js ''production'')) plain_text"
proof -
  have d: "\<not> development (Some (js ''production''))"
    by (simp add: development_def js_def)
  have n: "array_text \<noteq> plain_text"
    by (simp add: array_text_def plain_text_def js_def)
  have a: "normalize id array_text allowedKeys = Inl Not_flat_object"
    by (simp add: normalize_def parse_flat_object_def array_parse)
  have p: "normalize id plain_text allowedKeys = Inl Syntax_error"
    by (simp add: normalize_def parse_flat_object_def plain_parse)
  from diagnostics_gated [where nt = id and node_env = "Some (js ''production'')"
      and ta = array_text and tb = plain_text and schema = allowedKeys
      and ea = Not_flat_object and eb = Syntax_error] d n a p
  show ?thesis by simp
qed




text \<open>
  C2, as amended. For every schema and every object of strings with distinct keys whose
  \<open>JSON.stringify\<close> text holds no three backticks in a row, \<open>normalize\<close> on that text
  succeeds; the result has exactly the fields of the schema, a field of the object with its
  string, any other field \<open>null\<close>. Without the condition the claim fails: the backticks
  of a value are removed with the fences.
\<close>

theorem roundtrip_string_object:
  assumes "distinct (map fst kvs)"
    and "\<not> has_fence (JSON_stringify nt (JObj (string_object kvs)))"
  shows "\<exists>result. normalize nt (JSON_stringify nt (JObj (string_object kvs))) schema = Inr result
      \<and> fst ` set result = set schema
      \<and> (\<forall>f \<in> set schema.
            map_of result f = Some (case map_of kvs f of Some s \<Rightarrow> JStr s | None \<Rightarrow> JNull))"
proof -
  define raw where "raw = JSON_stringify nt (JObj (string_object kvs))"
  define es where "es = foldl (\<lambda>acc (k, s). obj_put k (JStr s) acc) [] kvs"
  define j where "j = foldl (\<lambda>acc (key, val). obj_put key (coerce_value nt val) acc) [] es"
  define r where "r = select_fields nt schema j"
  have c: "clean raw = raw"
    unfolding raw_def by (rule clean_string_object [OF assms(2)])
  have p: "JSON_parse (clean raw) = Some (JObj es)"
    unfolding c unfolding raw_def es_def by (rule JSON_parse_string_object)
  have pj: "parse_flat_object nt (clean raw) = Inr j"
    unfolding j_def by (rule parse_flat_object_JObj [OF p])
  then have nr: "normalize nt raw schema = Inr r"
    by (simp add: normalize_def r_def)
  have keys: "fst ` set r = set schema"
    unfolding r_def by (rule keys_select_fields)
  have es: "map_of es f = map_option JStr (map_of kvs f)" for f
    unfolding es_def by (rule map_of_string_object_put [OF assms(1)])
  have look: "map_of j f = map_option (coerce_value nt) (map_of es f)" for f
    by (rule flat_object_lookup [OF p pj])
  have "\<forall>f \<in> set schema.
      map_of r f = Some (case map_of kvs f of Some s \<Rightarrow> JStr s | None \<Rightarrow> JNull)"
    by (auto simp: r_def select_fields_lookup look es coerce_value_def split: option.splits)
  with nr keys show ?thesis unfolding raw_def by blast
qed

theorem roundtrip_string_object_witness:
  "distinct (map fst example_strings)
   \<and> \<not> has_fence (JSON_stringify id (JObj (string_object example_strings)))
   \<and> normalize id (JSON_stringify id (JObj (string_object example_strings))) example_schema
       = Inr example_strings_result
   \<and> map_of example_strings_result (js ''Name'') = Some (JStr (js ''Ali''))
   \<and> map_of example_strings_result (js ''Age'') = Some JNull"
proof -
  have d: "distinct (map fst example_strings)"
    by code_simp
  have h: "\<not> has_fence (JSON_stringify id (JObj (string_object example_strings)))"
    by code_simp
  have n: "normalize id (JSON_stringify id (JObj (string_object example_strings))) example_schema
      = Inr example_strings_result"
    by code_simp
  have m: "js ''Name'' \<in> set example_schema" "js ''Age'' \<in> set example_schema"
    by code_simp+
  have v: "map_of example_strings (js ''Name'') = Some (js ''Ali'')"
    "map_of example_strings (js ''Age'') = None"
    by code_simp+
  from roundtrip_string_object [OF d h, of example_schema] n
  have "\<forall>f \<in> set example_schema. map_of example_strings_result f
      = Some (case map_of example_strings f of Some s \<Rightarrow> JStr s | None \<Rightarrow> JNull)"
    by auto
  with m v d h n show ?thesis by auto
qed

theorem roundtrip_counterexample:
  "distinct (map fst backtick_strings)
   \<and> map_of backtick_strings (js ''Name'') = Some (js ''a'' @ fence @ js ''b'')
   \<and> JSON_stringify id (JObj (string_object backtick_strings)) = backtick_value_text
   \<and> normalize id (JSON_stringify id (JObj (string_object backtick_strings))) [js ''Name'']
       = Inr [(js ''Name'', JStr (js ''ab''))]
   \<and> js ''ab'' \<noteq> js ''a'' @ fence @ js ''b''"
proof -
  have a: "distinct (map fst backtick_strings)"
    by code_simp
  have b: "map_of backtick_strings (js ''Name'') = Some (js ''a'' @ fence @ js ''b'')"
    by code_simp
  have c: "JSON_stringify id (JObj (string_object backtick_strings)) = backtick_value_text"
    by code_simp
  have d: "normalize id (JSON_stringify id (JObj (string_object backtick_strings))) [js ''Name'']
      = Inr [(js ''Name'', JStr (js ''ab''))]"
    by code_simp
  have e: "js ''ab'' \<noteq> js ''a'' @ fence @ js ''b''"
    by code_simp
  from a b c d e show ?thesis by simp
qed

text \<open>
  C10. A type with two mentions gets the array of both texts, in the order of the document,
  and a type with one mention its text (\<open>collect_entities_nonempty\<close>, for documents
  without an empty mention). But the test \<open>if (extractedData.entities[key])\<close> is a test
  of truthiness: where the text stored so far is empty, a second mention of the type
  replaces it instead of making the array.
\<close>

theorem collect_entities_empty_first:
  "own_types two_mentions
   \<and> own_types empty_first_mention
   \<and> collect_entities (Some two_mentions)
     = [(js ''skill'', Texts [js ''Cooking'', js ''Cleaning'']), (js ''name'', Text (js ''Ali''))]
   \<and> collect_entities (Some empty_first_mention) = [(js ''name'', Text (js ''Ali''))]
   \<and> collect_entities (Some empty_first_mention) \<noteq> [(js ''name'', Texts [[], js ''Ali''])]"
proof -
  have a: "collect_entities (Some two_mentions)
      = [(js ''skill'', Texts [js ''Cooking'', js ''Cleaning'']), (js ''name'', Text (js ''Ali''))]"
    by code_simp
  have b: "collect_entities (Some empty_first_mention) = [(js ''name'', Text (js ''Ali''))]"
    by code_simp
  have c: "own_types two_mentions" "own_types empty_first_mention"
    by code_simp+
  from a b c show ?thesis by simp
qed

end
